theory Spec2Isabelle
  imports Main
begin

section \<open>JSON values as Python sees them\<close>

text \<open>
  The records of \<^verbatim>\<open>doaj_fetch.py\<close> are what \<^verbatim>\<open>response.json()\<close> returns:
  \<^verbatim>\<open>None\<close>, booleans, integers, strings, lists and dicts with string keys.
  A string is the list of its code points, each below 256; a dict is the list of its
  items in insertion order (its keys are distinct, and a lookup takes the first item
  with the key). JSON numbers with a fraction or an exponent (Python floats) are not
  part of this model.
\<close>

datatype json =
    JNull
  | JBool bool
  | JInt int
  | JStr string
  | JList "json list"
  | JObj "(string \<times> json) list"

datatype error = AttributeError | TypeError

text \<open>Truth value of a Python object, as \<^verbatim>\<open>if x:\<close> and \<^verbatim>\<open>not x\<close> test it.\<close>

fun truthy :: "json \<Rightarrow> bool" where
  "truthy JNull = False"
| "truthy (JBool b) = b"
| "truthy (JInt i) = (i \<noteq> 0)"
| "truthy (JStr s) = (s \<noteq> [])"
| "truthy (JList xs) = (xs \<noteq> [])"
| "truthy (JObj fs) = (fs \<noteq> [])"

text \<open>\<^verbatim>\<open>x.get(key, default)\<close>: only a dict has the method.\<close>

fun py_get :: "json \<Rightarrow> string \<Rightarrow> json \<Rightarrow> error + json" where
  "py_get (JObj fs) k d = Inr (case map_of fs k of None \<Rightarrow> d | Some v \<Rightarrow> v)"
| "py_get _ k d = Inl AttributeError"

text \<open>
  \<^verbatim>\<open>for x in v\<close>: a list yields its elements, a dict its keys, a string its
  characters as one-character strings; nothing else is iterable.
\<close>

fun py_iter :: "json \<Rightarrow> error + json list" where
  "py_iter (JList xs) = Inr xs"
| "py_iter (JObj fs) = Inr (map (\<lambda>kv. JStr (fst kv)) fs)"
| "py_iter (JStr s) = Inr (map (\<lambda>c. JStr [c]) s)"
| "py_iter _ = Inl TypeError"

subsection \<open>\<^verbatim>\<open>str\<close> and \<^verbatim>\<open>repr\<close>\<close>

definition digit_char :: "nat \<Rightarrow> char" where
  "digit_char d = ''0123456789abcdef'' ! d"

fun nat_digits :: "nat \<Rightarrow> string" where
  "nat_digits n =
     (if n < 10 then [digit_char n] else nat_digits (n div 10) @ [digit_char (n mod 10)])"

declare nat_digits.simps [simp del]

definition int_str :: "int \<Rightarrow> string" where
  "int_str i = (if i < 0 then ''-'' @ nat_digits (nat (- i)) else nat_digits (nat i))"

text \<open>
  \<^verbatim>\<open>repr\<close> of a string: single quotes, unless the string has a single quote and no
  double quote; the quote and the backslash are escaped, tab, newline and carriage return
  are written with their letters, and every other non-printable code point below 256
  (controls, 127, 128 to 160, 173) as a two-digit hexadecimal escape.
\<close>

definition escape_char :: "char \<Rightarrow> char \<Rightarrow> string" where
  "escape_char q c =
     (let n = (of_char c :: nat) in
      if c = q \<or> c = CHR 0x5C then [CHR 0x5C, c]
      else if n = 9 then [CHR 0x5C, CHR ''t'']
      else if n = 10 then [CHR 0x5C, CHR ''n'']
      else if n = 13 then [CHR 0x5C, CHR ''r'']
      else if n < 32 \<or> n = 127 \<or> (128 \<le> n \<and> n \<le> 160) \<or> n = 173
        then [CHR 0x5C, CHR ''x'', digit_char (n div 16), digit_char (n mod 16)]
      else [c])"

definition repr_str :: "string \<Rightarrow> string" where
  "repr_str s =
     (let q = (if CHR 0x27 \<in> set s \<and> CHR 0x22 \<notin> set s then CHR 0x22 else CHR 0x27)
      in [q] @ concat (map (escape_char q) s) @ [q])"

fun join :: "string \<Rightarrow> string list \<Rightarrow> string" where
  "join sep [] = []"
| "join sep [x] = x"
| "join sep (x # y # ys) = x @ sep @ join sep (y # ys)"

fun py_repr :: "json \<Rightarrow> string" where
  "py_repr JNull = ''None''"
| "py_repr (JBool b) = (if b then ''True'' else ''False'')"
| "py_repr (JInt i) = int_str i"
| "py_repr (JStr s) = repr_str s"
| "py_repr (JList xs) = ''['' @ join '', '' (map py_repr xs) @ '']''"
| "py_repr (JObj fs) =
     ''{'' @ join '', '' (map (\<lambda>kv. repr_str (fst kv) @ '': '' @ py_repr (snd kv)) fs) @ ''}''"

text \<open>\<^verbatim>\<open>str(x)\<close>, which is also what an f-string writes for \<^verbatim>\<open>{x}\<close>.\<close>

fun py_str :: "json \<Rightarrow> string" where
  "py_str (JStr s) = s"
| "py_str v = py_repr v"

section \<open>Counters\<close>

text \<open>
  A \<^verbatim>\<open>Counter\<close> is a dict from keys to integers, kept as the list of its items in
  insertion order. \<^verbatim>\<open>c[k] += 1\<close> adds one to the item whose key equals \<open>k\<close>, or
  appends the item \<open>(k, 1)\<close> when there is none. The test \<open>same\<close> is Python's
  equality of keys.
\<close>

type_synonym 'k counter = "('k \<times> int) list"

fun counter_inc :: "('k \<Rightarrow> 'k \<Rightarrow> bool) \<Rightarrow> 'k \<Rightarrow> 'k counter \<Rightarrow> 'k counter" where
  "counter_inc same k [] = [(k, 1)]"
| "counter_inc same k ((k', n) # c) =
     (if same k' k then (k', n + 1) # c else (k', n) # counter_inc same k c)"

text \<open>
  \<^verbatim>\<open>defaultdict(Counter)\<close>: \<^verbatim>\<open>d[cat][k] += 1\<close> creates the empty counter of
  \<open>cat\<close> when it is missing, then counts \<open>k\<close> in it. The outer keys are strings.
\<close>

type_synonym 'k table = "(string \<times> 'k counter) list"

fun table_inc :: "('k \<Rightarrow> 'k \<Rightarrow> bool) \<Rightarrow> string \<Rightarrow> 'k \<Rightarrow> 'k table \<Rightarrow> 'k table" where
  "table_inc same cat k [] = [(cat, counter_inc same k [])]"
| "table_inc same cat k ((cat', c) # t) =
     (if cat' = cat then (cat', counter_inc same k c) # t
      else (cat', c) # table_inc same cat k t)"

text \<open>
  Keys of the language counter are whatever the language list holds. Python dict keys
  must be hashable (a list or a dict is not), and \<^verbatim>\<open>True == 1\<close>, \<^verbatim>\<open>False == 0\<close>.
\<close>

fun hashable :: "json \<Rightarrow> bool" where
  "hashable (JList xs) = False"
| "hashable (JObj fs) = False"
| "hashable _ = True"

fun key_norm :: "json \<Rightarrow> json" where
  "key_norm (JBool b) = JInt (if b then 1 else 0)"
| "key_norm v = v"

definition py_eq :: "json \<Rightarrow> json \<Rightarrow> bool" where
  "py_eq a b = (key_norm a = key_norm b)"

text \<open>What a table holds for one category: a count, and the sum of a counter.\<close>

definition count_of :: "string counter \<Rightarrow> string \<Rightarrow> int" where
  "count_of c k = (case map_of c k of None \<Rightarrow> 0 | Some n \<Rightarrow> n)"

definition counter_total :: "'k counter \<Rightarrow> int" where
  "counter_total c = sum_list (map snd c)"

definition table_total :: "'k table \<Rightarrow> string \<Rightarrow> int" where
  "table_total t cat = (case map_of t cat of None \<Rightarrow> 0 | Some c \<Rightarrow> counter_total c)"

section \<open>The classifier\<close>

definition CC_LICENSE_TYPES :: "string list" where
  "CC_LICENSE_TYPES =
     [''CC BY'', ''CC BY-NC'', ''CC BY-SA'', ''CC BY-ND'', ''CC BY-NC-SA'',
      ''CC BY-NC-ND'', ''CC0'', ''UNKNOWN CC legal tool'']"

text \<open>
  The loop of \<^verbatim>\<open>extract_license_type\<close>: \<^verbatim>\<open>lic.get("type", "")\<close> raises on a
  descriptor that is not a dict; a type that is not a string equals no member of the
  list.
\<close>

fun scan_licenses :: "json list \<Rightarrow> error + string" where
  "scan_licenses [] = Inr ''UNKNOWN CC legal tool''"
| "scan_licenses (lic # rest) =
     (case py_get lic ''type'' (JStr []) of
        Inl e \<Rightarrow> Inl e
      | Inr lic_type \<Rightarrow>
          (case lic_type of
             JStr t \<Rightarrow> if t \<in> set CC_LICENSE_TYPES then Inr t else scan_licenses rest
           | _ \<Rightarrow> scan_licenses rest))"

definition extract_license_type :: "json \<Rightarrow> error + string" where
  "extract_license_type license_info =
     (if \<not> truthy license_info then Inr ''UNKNOWN CC legal tool''
      else (case py_iter license_info of
              Inl e \<Rightarrow> Inl e
            | Inr lics \<Rightarrow> scan_licenses lics))"

section \<open>The driver\<close>

datatype effect = Get int | Sleep

text \<open>
  The local variables of \<^verbatim>\<open>process_journals\<close>, and the requests and delays it has
  performed so far, in order (\<open>Get p\<close> is \<^verbatim>\<open>session.get\<close> for page \<open>p\<close>,
  \<open>Sleep\<close> is \<^verbatim>\<open>time.sleep(RATE_LIMIT_DELAY)\<close>).
\<close>

record state =
  license_counts :: "string counter"
  subject_counts :: "string table"
  language_counts :: "json table"
  year_counts :: "string table"
  total_processed :: int
  page :: int
  effects :: "effect list"

definition init_state :: state where
  "init_state =
     \<lparr>license_counts = [], subject_counts = [], language_counts = [], year_counts = [],
      total_processed = 0, page = 1, effects = []\<rparr>"

text \<open>Lines 249 to 254: the subjects of one journal.\<close>

fun for_subjects :: "string \<Rightarrow> json list \<Rightarrow> string table \<Rightarrow> string table" where
  "for_subjects license_type [] t = t"
| "for_subjects license_type (subject # rest) t =
     (case subject of
        JObj fs \<Rightarrow>
          (let code = (case map_of fs ''code'' of None \<Rightarrow> JStr [] | Some v \<Rightarrow> v);
               term = (case map_of fs ''term'' of None \<Rightarrow> JStr [] | Some v \<Rightarrow> v)
           in if truthy code \<and> truthy term
              then for_subjects license_type rest
                     (table_inc (=) license_type (py_str code @ ''|'' @ py_str term) t)
              else for_subjects license_type rest t)
      | _ \<Rightarrow> for_subjects license_type rest t)"

text \<open>Lines 265 and 266: the languages of one journal.\<close>

fun for_languages :: "string \<Rightarrow> json list \<Rightarrow> json table \<Rightarrow> error + json table" where
  "for_languages license_type [] t = Inr t"
| "for_languages license_type (lang # rest) t =
     (if hashable lang
      then for_languages license_type rest (table_inc py_eq license_type lang t)
      else Inl TypeError)"

text \<open>
  Lines 234 to 268: the body of the loop over the journals of a page. An exception
  leaves \<^verbatim>\<open>process_journals\<close>, and its tables with it.
\<close>

definition count_journal :: "json \<Rightarrow> state \<Rightarrow> error + state" where
  "count_journal journal s =
     (case py_get journal ''bibjson'' (JObj []) of Inl e \<Rightarrow> Inl e | Inr bibjson \<Rightarrow>
     (case py_get bibjson ''license'' JNull of Inl e \<Rightarrow> Inl e | Inr license_info \<Rightarrow>
      if \<not> truthy license_info then Inr s else
     (case extract_license_type license_info of Inl e \<Rightarrow> Inl e | Inr license_type \<Rightarrow>
      if license_type = ''UNKNOWN CC legal tool'' then Inr s else
     (case py_get bibjson ''subject'' (JList []) of Inl e \<Rightarrow> Inl e | Inr subjects \<Rightarrow>
     (case py_iter subjects of Inl e \<Rightarrow> Inl e | Inr subs \<Rightarrow>
     (case py_get bibjson ''oa_start'' JNull of Inl e \<Rightarrow> Inl e | Inr oa_start \<Rightarrow>
     (case py_get bibjson ''language'' (JList []) of Inl e \<Rightarrow> Inl e | Inr languages \<Rightarrow>
     (case py_iter languages of Inl e \<Rightarrow> Inl e | Inr langs \<Rightarrow>
     (case for_languages license_type langs (language_counts s) of Inl e \<Rightarrow> Inl e
      | Inr language_counts' \<Rightarrow>
         Inr (s\<lparr>license_counts := counter_inc (=) license_type (license_counts s),
                subject_counts := for_subjects license_type subs (subject_counts s),
                year_counts :=
                  table_inc (=) license_type
                    (if truthy oa_start then py_str oa_start else ''Unknown'')
                    (year_counts s),
                language_counts := language_counts',
                total_processed := total_processed s + 1\<rparr>))))))))))"

text \<open>Lines 230 to 268: the journals of one page, until the limit is reached.\<close>

fun for_journals :: "int \<Rightarrow> json list \<Rightarrow> state \<Rightarrow> error + state" where
  "for_journals limit [] s = Inr s"
| "for_journals limit (journal # rest) s =
     (if total_processed s \<ge> limit then Inr s
      else (case count_journal journal s of
              Inl e \<Rightarrow> Inl e
            | Inr s' \<Rightarrow> for_journals limit rest s'))"

text \<open>
  The session answers the request for a page with a JSON document or with a
  \<^verbatim>\<open>RequestException\<close> (which \<^verbatim>\<open>raise_for_status\<close> and \<^verbatim>\<open>response.json\<close> raise
  too). The page size and the URL never change, so the page number decides the answer.
\<close>

datatype response = RequestException | Json json

datatype outcome = Continue state | Break state | Raise error

text \<open>Lines 213 to 271: one pass through the body of the \<^verbatim>\<open>while\<close> loop.\<close>

definition while_body :: "(int \<Rightarrow> response) \<Rightarrow> int \<Rightarrow> state \<Rightarrow> outcome" where
  "while_body session limit s =
     (let s1 = s\<lparr>effects := effects s @ [Get (page s)]\<rparr> in
      (case session (page s) of
         RequestException \<Rightarrow> Break s1
       | Json data \<Rightarrow>
           (case py_get data ''results'' (JList []) of
              Inl e \<Rightarrow> Raise e
            | Inr results \<Rightarrow>
                if \<not> truthy results then Break s1
                else (case py_iter results of
                        Inl e \<Rightarrow> Raise e
                      | Inr journals \<Rightarrow>
                          (case for_journals limit journals s1 of
                             Inl e \<Rightarrow> Raise e
                           | Inr s2 \<Rightarrow>
                               Continue (s2\<lparr>page := page s2 + 1,
                                            effects := effects s2 @ [Sleep]\<rparr>))))))"

text \<open>
  Lines 212 to 279. The loop need not end (a source whose pages never run out of
  journals without a licence), so the result is optional: \<open>None\<close> is a run that
  never returns, \<open>Some (Inl e)\<close> one that raises \<open>e\<close>.
\<close>

partial_function (option) while_loop ::
  "(int \<Rightarrow> response) \<Rightarrow> int \<Rightarrow> state \<Rightarrow> (error + state) option" where
  [code]: "while_loop session limit s =
     (if total_processed s < limit
      then (case while_body session limit s of
              Continue s' \<Rightarrow> while_loop session limit s'
            | Break s' \<Rightarrow> Some (Inr s')
            | Raise e \<Rightarrow> Some (Inl e))
      else Some (Inr s))"

definition process_journals :: "(int \<Rightarrow> response) \<Rightarrow> int \<Rightarrow> (error + state) option" where
  "process_journals session limit = while_loop session limit init_state"

text \<open>
  The provenance data of \<^verbatim>\<open>query_doaj\<close> (lines 369 to 380); the quarter, the script
  name and the note do not depend on the run.
\<close>

record provenance =
  total_articles_fetched :: int
  total_journals_fetched :: int
  prov_total_processed :: int
  prov_limit :: int

definition query_doaj :: "(int \<Rightarrow> response) \<Rightarrow> int \<Rightarrow> (error + provenance) option" where
  "query_doaj session limit =
     (case process_journals session limit of
        None \<Rightarrow> None
      | Some (Inl e) \<Rightarrow> Some (Inl e)
      | Some (Inr s) \<Rightarrow>
          Some (Inr \<lparr>total_articles_fetched = 0,
                     total_journals_fetched = total_processed s,
                     prov_total_processed = total_processed s,
                     prov_limit = limit\<rparr>))"

section \<open>Notions used in the statements\<close>


text \<open>
  A licence descriptor is recognized when it is a dict whose \<^verbatim>\<open>"type"\<close> is a member
  of \<open>CC_LICENSE_TYPES\<close>; a subject entry is valid when it is a dict whose code and
  term are both truthy (line 253).
\<close>

fun is_dict :: "json \<Rightarrow> bool" where
  "is_dict (JObj fs) = True"
| "is_dict _ = False"

definition recognized :: "json \<Rightarrow> bool" where
  "recognized lic =
     (case py_get lic ''type'' (JStr []) of
        Inr (JStr t) \<Rightarrow> t \<in> set CC_LICENSE_TYPES
      | _ \<Rightarrow> False)"

fun valid_subject :: "json \<Rightarrow> bool" where
  "valid_subject (JObj fs) =
     (truthy (case map_of fs ''code'' of None \<Rightarrow> JStr [] | Some v \<Rightarrow> v) \<and>
      truthy (case map_of fs ''term'' of None \<Rightarrow> JStr [] | Some v \<Rightarrow> v))"
| "valid_subject _ = False"

text \<open>
  The category under which the driver counts a journal: \<open>None\<close> when lines 234 to 243
  skip it (or raise): a journal is counted when this is \<open>Some\<close> category. The
  catch-all is never the category of a counted journal (line 242).
\<close>

definition category_of :: "json \<Rightarrow> string option" where
  "category_of journal =
     (case py_get journal ''bibjson'' (JObj []) of Inl e \<Rightarrow> None | Inr bibjson \<Rightarrow>
     (case py_get bibjson ''license'' JNull of Inl e \<Rightarrow> None | Inr license_info \<Rightarrow>
      if \<not> truthy license_info then None else
     (case extract_license_type license_info of Inl e \<Rightarrow> None | Inr license_type \<Rightarrow>
      if license_type = ''UNKNOWN CC legal tool'' then None else Some license_type)))"

text \<open>The subject entries of a journal, and how many of them are valid.\<close>

definition subjects_of :: "json \<Rightarrow> json list" where
  "subjects_of journal =
     (case py_get journal ''bibjson'' (JObj []) of Inl e \<Rightarrow> [] | Inr bibjson \<Rightarrow>
     (case py_get bibjson ''subject'' (JList []) of Inl e \<Rightarrow> [] | Inr subjects \<Rightarrow>
     (case py_iter subjects of Inl e \<Rightarrow> [] | Inr subs \<Rightarrow> subs)))"

definition valid_subjects_of :: "json \<Rightarrow> nat" where
  "valid_subjects_of journal = length (filter valid_subject (subjects_of journal))"

text \<open>
  The journals of page \<open>p\<close> (none when the request fails or the answer has no list of
  results), and the journals of \<open>n\<close> pages in a row from page \<open>p\<close>.
\<close>

definition page_journals :: "(int \<Rightarrow> response) \<Rightarrow> int \<Rightarrow> json list" where
  "page_journals session p =
     (case session p of RequestException \<Rightarrow> [] | Json data \<Rightarrow>
     (case py_get data ''results'' (JList []) of Inl e \<Rightarrow> [] | Inr results \<Rightarrow>
     (case py_iter results of Inl e \<Rightarrow> [] | Inr journals \<Rightarrow> journals)))"

fun fetched :: "(int \<Rightarrow> response) \<Rightarrow> int \<Rightarrow> nat \<Rightarrow> json list" where
  "fetched session p 0 = []"
| "fetched session p (Suc n) = page_journals session p @ fetched session (p + 1) n"

text \<open>The effects of \<open>n\<close> passes through the loop from page \<open>p\<close>: a request and a delay each.\<close>

fun rounds :: "int \<Rightarrow> nat \<Rightarrow> effect list" where
  "rounds p 0 = []"
| "rounds p (Suc n) = Get p # Sleep # rounds (p + 1) n"

text \<open>
  The state after \<open>n\<close> passes through the loop that each went on to the next page
  (\<open>None\<close> when the loop ended before), and how the loop ends in a state: by its
  condition, by \<^verbatim>\<open>break\<close> or by an exception (\<open>None\<close> when it goes on).
\<close>

fun after_pages :: "(int \<Rightarrow> response) \<Rightarrow> int \<Rightarrow> nat \<Rightarrow> state \<Rightarrow> state option" where
  "after_pages session limit 0 s = Some s"
| "after_pages session limit (Suc n) s =
     (if total_processed s < limit
      then (case while_body session limit s of
              Continue s' \<Rightarrow> after_pages session limit n s'
            | Break s' \<Rightarrow> None
            | Raise e \<Rightarrow> None)
      else None)"

definition loop_exit :: "(int \<Rightarrow> response) \<Rightarrow> int \<Rightarrow> state \<Rightarrow> (error + state) option" where
  "loop_exit session limit s =
     (if total_processed s < limit
      then (case while_body session limit s of
              Continue s' \<Rightarrow> None
            | Break s' \<Rightarrow> Some (Inr s')
            | Raise e \<Rightarrow> Some (Inl e))
      else Some (Inr s))"

text \<open>
  A source of finitely many pages, given by the answers to the requests for pages 1, 2
  and so on; a page beyond the last has no results. \<open>page_of js\<close> is the answer
  whose \<^verbatim>\<open>results\<close> are the journals \<open>js\<close>; \<open>licensed t fs\<close> is a journal with
  one licence descriptor of type \<open>t\<close> and the further fields \<open>fs\<close> in its
  \<^verbatim>\<open>bibjson\<close>; \<open>subject_entry c l\<close> is a subject with code \<open>c\<close> and term \<open>l\<close>.
\<close>

definition page_of :: "json list \<Rightarrow> response" where
  "page_of js = Json (JObj [(''results'', JList js)])"

definition pages :: "response list \<Rightarrow> int \<Rightarrow> response" where
  "pages rs p = (if 1 \<le> p \<and> p \<le> int (length rs) then rs ! nat (p - 1) else page_of [])"

definition licensed :: "string \<Rightarrow> (string \<times> json) list \<Rightarrow> json" where
  "licensed t fs =
     JObj [(''bibjson'', JObj ((''license'', JList [JObj [(''type'', JStr t)]]) # fs))]"

definition subject_entry :: "string \<Rightarrow> string \<Rightarrow> json" where
  "subject_entry c l = JObj [(''code'', JStr c), (''term'', JStr l)]"

text \<open>
  Two sources of three pages: two CC BY journals; a CC0 journal and a journal without
  licence data; one CC BY journal that started in 2001. In the second source the request
  for page 2 fails.
\<close>

definition three_page_source :: "int \<Rightarrow> response" where
  "three_page_source =
     pages [page_of [licensed ''CC BY'' [], licensed ''CC BY'' []],
            page_of [licensed ''CC0'' [], JObj [(''bibjson'', JObj [])]],
            page_of [licensed ''CC BY'' [(''oa_start'', JInt 2001)]]]"

definition failing_source :: "int \<Rightarrow> response" where
  "failing_source =
     pages [page_of [licensed ''CC BY'' [], licensed ''CC BY'' []],
            RequestException,
            page_of [licensed ''CC BY'' [(''oa_start'', JInt 2001)]]]"

text \<open>
  \<^verbatim>\<open>classify\<close> of the driver, lines 234 to 241: unqualified (\<open>None\<close>) when the licence
  data is falsy, otherwise the result of \<open>extract_license_type\<close>, the catch-all
  included. A qualifying journal is one that is not unqualified; \<open>qualifying js\<close> are
  the categories of the qualifying journals of \<open>js\<close>, in order.
\<close>

definition classify :: "json \<Rightarrow> string option" where
  "classify journal =
     (case py_get journal ''bibjson'' (JObj []) of Inl e \<Rightarrow> None | Inr bibjson \<Rightarrow>
     (case py_get bibjson ''license'' JNull of Inl e \<Rightarrow> None | Inr license_info \<Rightarrow>
      if \<not> truthy license_info then None else
     (case extract_license_type license_info of Inl e \<Rightarrow> None | Inr license_type \<Rightarrow>
        Some license_type)))"

definition qualifying :: "json list \<Rightarrow> string list" where
  "qualifying js = List.map_filter classify js"

text \<open>
  The categories of the journals of a list that the driver counts, in order: the
  qualifying journals whose category is not the catch-all.
\<close>

definition counted :: "json list \<Rightarrow> string list" where
  "counted js = List.map_filter category_of js"

text \<open>
  An answer with a truthy \<^verbatim>\<open>results\<close>, after which the loop goes into the page; and
  an answer at which the loop ends by \<^verbatim>\<open>break\<close>: a failed request, or falsy results.
\<close>

definition nonempty_page :: "response \<Rightarrow> bool" where
  "nonempty_page r =
     (case r of RequestException \<Rightarrow> False | Json data \<Rightarrow>
     (case py_get data ''results'' (JList []) of Inl e \<Rightarrow> False | Inr results \<Rightarrow>
        truthy results))"

definition ends_loop :: "response \<Rightarrow> bool" where
  "ends_loop r =
     (case r of RequestException \<Rightarrow> True | Json data \<Rightarrow>
     (case py_get data ''results'' (JList []) of Inl e \<Rightarrow> False | Inr results \<Rightarrow>
        \<not> truthy results))"

section \<open>Counters and tables\<close>

lemma counter_total_Nil: "counter_total [] = 0"
  by (simp add: counter_total_def)

lemma counter_total_Cons: "counter_total ((k, n) # c) = n + counter_total c"
  by (simp add: counter_total_def)

lemma counter_total_inc: "counter_total (counter_inc same k c) = counter_total c + 1"
  by (induction c) (auto simp: counter_total_Nil counter_total_Cons)

lemma count_of_Nil: "count_of [] k' = 0"
  by (simp add: count_of_def)

lemma count_of_Cons: "count_of ((k, n) # c) k' = (if k' = k then n else count_of c k')"
  by (simp add: count_of_def)

lemma count_of_inc:
  "count_of (counter_inc (=) k c) k' = count_of c k' + (if k' = k then 1 else 0)"
  by (induction c) (auto simp: count_of_Nil count_of_Cons)

lemma table_total_inc:
  "table_total (table_inc same cat k t) cat' =
     table_total t cat' + (if cat' = cat then 1 else 0)"
  by (induction t)
    (auto simp: table_total_def counter_total_inc counter_total_Nil counter_total_Cons)


lemma table_total_for_subjects:
  "table_total (for_subjects lt subs t) cat =
     table_total t cat + (if cat = lt then int (length (filter valid_subject subs)) else 0)"
proof (induction subs arbitrary: t cat)
  case Nil
  then show ?case by simp
next
  case (Cons subject rest)
  show ?case
    by (cases subject) (simp_all add: Cons.IH table_total_inc Let_def)
qed

section \<open>The classifier: lemmas\<close>

lemma scan_licenses_skip:
  "\<forall>d \<in> set pre. is_dict d \<and> \<not> recognized d \<Longrightarrow>
   scan_licenses (pre @ rest) = scan_licenses rest"
proof (induction pre)
  case Nil
  then show ?case by simp
next
  case (Cons d pre)
  then obtain fs where d: "d = JObj fs" by (cases d) auto
  from Cons.prems have "\<not> recognized d" by simp
  with d have "scan_licenses (d # pre @ rest) = scan_licenses (pre @ rest)"
    by (auto simp: recognized_def split: option.splits json.splits)
  with Cons show ?case by simp
qed

lemma scan_licenses_hit:
  "py_get d ''type'' (JStr []) = Inr (JStr t) \<Longrightarrow> t \<in> set CC_LICENSE_TYPES \<Longrightarrow>
   scan_licenses (d # post) = Inr t"
  by simp

lemma scan_licenses_in_types:
  "\<forall>d \<in> set ds. is_dict d \<Longrightarrow> \<exists>t. scan_licenses ds = Inr t \<and> t \<in> set CC_LICENSE_TYPES"
proof (induction ds)
  case Nil
  then show ?case by (simp add: CC_LICENSE_TYPES_def)
next
  case (Cons d ds)
  then obtain fs where d: "d = JObj fs" by (cases d) auto
  with Cons show ?case
    by (auto split: option.splits json.splits)
qed

lemma extract_falsy: "\<not> truthy v \<Longrightarrow> extract_license_type v = Inr ''UNKNOWN CC legal tool''"
  by (simp add: extract_license_type_def)

lemma extract_list: "ds \<noteq> [] \<Longrightarrow> extract_license_type (JList ds) = scan_licenses ds"
  by (simp add: extract_license_type_def)

section \<open>One journal\<close>

lemma count_journal_falsy:
  "py_get journal ''bibjson'' (JObj []) = Inr bibjson \<Longrightarrow>
   py_get bibjson ''license'' JNull = Inr license_info \<Longrightarrow>
   \<not> truthy license_info \<Longrightarrow> count_journal journal s = Inr s"
  by (simp add: count_journal_def)

lemma count_journal_unknown:
  "py_get journal ''bibjson'' (JObj []) = Inr bibjson \<Longrightarrow>
   py_get bibjson ''license'' JNull = Inr license_info \<Longrightarrow>
   extract_license_type license_info = Inr ''UNKNOWN CC legal tool'' \<Longrightarrow>
   count_journal journal s = Inr s"
  by (simp add: count_journal_def)


lemma for_journals_at_limit: "limit \<le> total_processed s \<Longrightarrow> for_journals limit js s = Inr s"
  by (cases js) simp_all

lemma count_journal_frame:
  "count_journal j s = Inr s' \<Longrightarrow> page s' = page s \<and> effects s' = effects s"
  by (auto simp: count_journal_def split: sum.splits if_splits)

lemma count_journal_not_counted:
  "count_journal j s = Inr s' \<Longrightarrow> category_of j = None \<Longrightarrow> s' = s"
  by (auto simp: count_journal_def category_of_def split: sum.splits if_splits)

lemma count_journal_counted:
  assumes "count_journal j s = Inr s'" and "category_of j = Some t"
  shows "total_processed s' = total_processed s + 1"
    and "license_counts s' = counter_inc (=) t (license_counts s)"
    and "\<exists>k. year_counts s' = table_inc (=) t k (year_counts s)"
    and "subject_counts s' = for_subjects t (subjects_of j) (subject_counts s)"
  using assms
  by (auto simp: count_journal_def category_of_def subjects_of_def split: sum.splits if_splits)

section \<open>One page\<close>

lemma counted_Nil: "counted [] = []"
  by (simp add: counted_def)

lemma counted_Cons:
  "counted (j # js) = (case category_of j of None \<Rightarrow> counted js | Some t \<Rightarrow> t # counted js)"
  by (simp add: counted_def split: option.splits)

lemma counted_append: "counted (xs @ ys) = counted xs @ counted ys"
  by (induction xs) (simp_all add: counted_Nil counted_Cons split: option.splits)

lemma for_journals_frame:
  "for_journals limit js s = Inr s' \<Longrightarrow> page s' = page s \<and> effects s' = effects s"
proof (induction js arbitrary: s)
  case Nil
  then show ?case by simp
next
  case (Cons j js)
  show ?case
  proof (cases "limit \<le> total_processed s")
    case True
    with Cons.prems show ?thesis by simp
  next
    case False
    with Cons.prems obtain s1 where c: "count_journal j s = Inr s1"
      and r: "for_journals limit js s1 = Inr s'"
      by (auto split: sum.splits)
    from count_journal_frame [OF c] Cons.IH [OF r] show ?thesis by simp
  qed
qed

lemma for_journals_counts:
  "for_journals limit js s = Inr s' \<Longrightarrow>
   total_processed s' = total_processed s +
     int (length (take (nat (limit - total_processed s)) (counted js))) \<and>
   count_of (license_counts s') cat = count_of (license_counts s) cat +
     int (count_list (take (nat (limit - total_processed s)) (counted js)) cat) \<and>
   table_total (year_counts s') cat = table_total (year_counts s) cat +
     int (count_list (take (nat (limit - total_processed s)) (counted js)) cat) \<and>
   counter_total (license_counts s') = counter_total (license_counts s) +
     int (length (take (nat (limit - total_processed s)) (counted js)))"
proof (induction js arbitrary: s)
  case Nil
  then show ?case by (simp add: counted_Nil)
next
  case (Cons j js)
  show ?case
  proof (cases "limit \<le> total_processed s")
    case True
    with Cons.prems show ?thesis by simp
  next
    case False
    with Cons.prems obtain s1 where c: "count_journal j s = Inr s1"
      and r: "for_journals limit js s1 = Inr s'"
      by (auto split: sum.splits)
    note IH = Cons.IH [OF r]
    show ?thesis
    proof (cases "category_of j")
      case None
      with c have "s1 = s" by (simp add: count_journal_not_counted)
      with IH None show ?thesis by (simp add: counted_Cons)
    next
      case (Some t)
      from count_journal_counted [OF c Some] obtain k where
        t1: "total_processed s1 = total_processed s + 1"
        and l1: "license_counts s1 = counter_inc (=) t (license_counts s)"
        and y1: "year_counts s1 = table_inc (=) t k (year_counts s)"
        by blast
      from False t1 have m: "nat (limit - total_processed s) = Suc (nat (limit - total_processed s1))"
        by simp
      from IH show ?thesis
        by (simp add: m counted_Cons Some t1 l1 y1 count_of_inc table_total_inc
            counter_total_inc)
    qed
  qed
qed

lemma for_journals_subjects:
  "for_journals limit js s = Inr s' \<Longrightarrow>
   \<forall>j \<in> set js. valid_subjects_of j \<le> k \<Longrightarrow>
   \<forall>cat. table_total (subject_counts s) cat \<le> int k * count_of (license_counts s) cat \<Longrightarrow>
   table_total (subject_counts s') cat \<le> int k * count_of (license_counts s') cat"
proof (induction js arbitrary: s)
  case Nil
  then show ?case by simp
next
  case (Cons j js)
  show ?case
  proof (cases "limit \<le> total_processed s")
    case True
    with Cons.prems show ?thesis by simp
  next
    case False
    with Cons.prems obtain s1 where c: "count_journal j s = Inr s1"
      and r: "for_journals limit js s1 = Inr s'"
      by (auto split: sum.splits)
    from Cons.prems(2) have vj: "valid_subjects_of j \<le> k"
      and vjs: "\<forall>j \<in> set js. valid_subjects_of j \<le> k" by simp_all
    have "\<forall>cat. table_total (subject_counts s1) cat \<le> int k * count_of (license_counts s1) cat"
    proof (cases "category_of j")
      case None
      with c have "s1 = s" by (simp add: count_journal_not_counted)
      with Cons.prems(3) show ?thesis by simp
    next
      case (Some t)
      from count_journal_counted [OF c Some] have
        l1: "license_counts s1 = counter_inc (=) t (license_counts s)"
        and s1: "subject_counts s1 = for_subjects t (subjects_of j) (subject_counts s)"
        by blast+
      show ?thesis
      proof
        fix cat
        from Cons.prems(3) have
          b: "table_total (subject_counts s) cat \<le> int k * count_of (license_counts s) cat"
          by blast
        from vj have "int (valid_subjects_of j) \<le> int k" by simp
        with b show "table_total (subject_counts s1) cat \<le> int k * count_of (license_counts s1) cat"
          by (auto simp add: l1 s1 table_total_for_subjects count_of_inc valid_subjects_of_def
              algebra_simps)
      qed
    qed
    from Cons.IH [OF r vjs this] show ?thesis .
  qed
qed

section \<open>The loop\<close>

lemma while_loop_after_pages:
  "after_pages session limit n s = Some s' \<Longrightarrow>
   while_loop session limit s = while_loop session limit s'"
proof (induction n arbitrary: s)
  case 0
  then show ?case by simp
next
  case (Suc n)
  from Suc.prems obtain s1 where lt: "total_processed s < limit"
    and b: "while_body session limit s = Continue s1"
    and a: "after_pages session limit n s1 = Some s'"
    by (auto split: if_splits outcome.splits)
  from lt b have "while_loop session limit s = while_loop session limit s1"
    by (subst while_loop.simps) simp
  with Suc.IH [OF a] show ?case by simp
qed

lemma while_loop_exit:
  "loop_exit session limit s = Some r \<Longrightarrow> while_loop session limit s = Some r"
  by (subst while_loop.simps) (auto simp: loop_exit_def split: if_splits outcome.splits)

lemma while_loop_returns:
  assumes "while_loop session limit s = Some r"
  shows "\<exists>n s'. after_pages session limit n s = Some s' \<and>
                loop_exit session limit s' = Some r"
proof (rule while_loop.raw_induct [OF _ assms])
  fix loop session limit s r
  assume IH: "\<And>session limit s r. loop session limit s = Some r \<Longrightarrow>
           \<exists>n s'. after_pages session limit n s = Some s' \<and>
                  loop_exit session limit s' = Some r"
    and eq: "(if total_processed s < limit
              then (case while_body session limit s of
                      Continue s' \<Rightarrow> loop session limit s'
                    | Break s' \<Rightarrow> Some (Inr s')
                    | Raise e \<Rightarrow> Some (Inl e))
              else Some (Inr s)) = Some r"
  show "\<exists>n s'. after_pages session limit n s = Some s' \<and>
               loop_exit session limit s' = Some r"
  proof (cases "total_processed s < limit")
    case False
    with eq have "after_pages session limit 0 s = Some s \<and> loop_exit session limit s = Some r"
      by (simp add: loop_exit_def)
    then show ?thesis by blast
  next
    case True
    show ?thesis
    proof (cases "while_body session limit s")
      case (Continue s1)
      with True eq have "loop session limit s1 = Some r" by simp
      from IH [OF this] obtain n s' where
        "after_pages session limit n s1 = Some s'" "loop_exit session limit s' = Some r"
        by blast
      with True Continue have
        "after_pages session limit (Suc n) s = Some s' \<and> loop_exit session limit s' = Some r"
        by simp
      then show ?thesis by blast
    next
      case (Break b)
      with True eq have
        "after_pages session limit 0 s = Some s \<and> loop_exit session limit s = Some r"
        by (simp add: loop_exit_def)
      then show ?thesis by blast
    next
      case (Raise e)
      with True eq have
        "after_pages session limit 0 s = Some s \<and> loop_exit session limit s = Some r"
        by (simp add: loop_exit_def)
      then show ?thesis by blast
    qed
  qed
qed

lemma while_body_Continue:
  "while_body session limit s = Continue s' \<Longrightarrow>
   nonempty_page (session (page s)) \<and>
   (\<exists>s2. for_journals limit (page_journals session (page s))
           (s\<lparr>effects := effects s @ [Get (page s)]\<rparr>) = Inr s2 \<and>
         s' = s2\<lparr>page := page s2 + 1, effects := effects s2 @ [Sleep]\<rparr>)"
  by (auto simp: while_body_def page_journals_def nonempty_page_def Let_def
      split: response.splits sum.splits if_splits)

lemma while_body_Break:
  "while_body session limit s = Break b \<Longrightarrow>
   b = s\<lparr>effects := effects s @ [Get (page s)]\<rparr> \<and> ends_loop (session (page s))"
  by (auto simp: while_body_def ends_loop_def Let_def
      split: response.splits sum.splits if_splits)

lemma while_body_failed:
  "session (page s) = RequestException \<Longrightarrow>
   while_body session limit s = Break (s\<lparr>effects := effects s @ [Get (page s)]\<rparr>)"
  by (simp add: while_body_def)

lemma nat_budget: "nat (l - (t + int x)) = nat (l - t) - x"
  by arith

lemma take_budget: "take (m - min m a) xs = take (m - a) xs"
  by (cases "a \<le> m") (simp_all add: min_def)

lemma while_body_counts:
  assumes "while_body session limit s = Continue s1"
  shows "page s1 = page s + 1"
    and "effects s1 = effects s @ [Get (page s), Sleep]"
    and "nonempty_page (session (page s))"
    and "total_processed s1 = total_processed s +
          int (length (take (nat (limit - total_processed s))
                 (counted (page_journals session (page s)))))"
    and "count_of (license_counts s1) cat = count_of (license_counts s) cat +
          int (count_list (take (nat (limit - total_processed s))
                 (counted (page_journals session (page s)))) cat)"
    and "table_total (year_counts s1) cat = table_total (year_counts s) cat +
          int (count_list (take (nat (limit - total_processed s))
                 (counted (page_journals session (page s)))) cat)"
    and "counter_total (license_counts s1) = counter_total (license_counts s) +
          int (length (take (nat (limit - total_processed s))
                 (counted (page_journals session (page s)))))"
proof -
  from while_body_Continue [OF assms] obtain s2 where
    ne: "nonempty_page (session (page s))"
    and f: "for_journals limit (page_journals session (page s))
           (s\<lparr>effects := effects s @ [Get (page s)]\<rparr>) = Inr s2"
    and s1: "s1 = s2\<lparr>page := page s2 + 1, effects := effects s2 @ [Sleep]\<rparr>"
    by blast
  from for_journals_frame [OF f] s1 show "page s1 = page s + 1"
    and "effects s1 = effects s @ [Get (page s), Sleep]" by simp_all
  from ne show "nonempty_page (session (page s))" .
  from for_journals_counts [OF f, of cat] s1
  show "total_processed s1 = total_processed s +
          int (length (take (nat (limit - total_processed s))
                 (counted (page_journals session (page s)))))"
    and "count_of (license_counts s1) cat = count_of (license_counts s) cat +
          int (count_list (take (nat (limit - total_processed s))
                 (counted (page_journals session (page s)))) cat)"
    and "table_total (year_counts s1) cat = table_total (year_counts s) cat +
          int (count_list (take (nat (limit - total_processed s))
                 (counted (page_journals session (page s)))) cat)"
    and "counter_total (license_counts s1) = counter_total (license_counts s) +
          int (length (take (nat (limit - total_processed s))
                 (counted (page_journals session (page s)))))"
    by simp_all
qed

lemma after_pages_Suc:
  "after_pages session limit (Suc n) s = Some s' \<Longrightarrow>
   \<exists>s1. total_processed s < limit \<and> while_body session limit s = Continue s1 \<and>
        after_pages session limit n s1 = Some s'"
  by (auto split: if_splits outcome.splits)

lemma after_pages_effects:
  "after_pages session limit n s = Some s' \<Longrightarrow>
   page s' = page s + int n \<and> effects s' = effects s @ rounds (page s) n \<and>
   (\<forall>i < n. nonempty_page (session (page s + int i)))"
proof (induction n arbitrary: s)
  case 0
  then show ?case by simp
next
  case (Suc n)
  from after_pages_Suc [OF Suc.prems] obtain s1 where
    b: "while_body session limit s = Continue s1"
    and a: "after_pages session limit n s1 = Some s'" by blast
  note w = while_body_counts(1-3) [OF b]
  from Suc.IH [OF a] w have
    p: "page s' = page s + int (Suc n)"
    and e: "effects s' = effects s @ rounds (page s) (Suc n)"
    and ne: "\<forall>i < n. nonempty_page (session (page s + 1 + int i))"
    by simp_all
  have "\<forall>i < Suc n. nonempty_page (session (page s + int i))"
  proof (intro allI impI)
    fix i assume "i < Suc n"
    show "nonempty_page (session (page s + int i))"
    proof (cases i)
      case 0
      with w(3) show ?thesis by simp
    next
      case (Suc i')
      with \<open>i < Suc n\<close> ne have "nonempty_page (session (page s + 1 + int i'))" by simp
      with Suc show ?thesis by (simp add: add.assoc)
    qed
  qed
  with p e show ?case by blast
qed

lemma after_pages_counts:
  "after_pages session limit n s = Some s' \<Longrightarrow>
   total_processed s' = total_processed s +
     int (length (take (nat (limit - total_processed s))
            (counted (fetched session (page s) n)))) \<and>
   count_of (license_counts s') cat = count_of (license_counts s) cat +
     int (count_list (take (nat (limit - total_processed s))
            (counted (fetched session (page s) n))) cat) \<and>
   table_total (year_counts s') cat = table_total (year_counts s) cat +
     int (count_list (take (nat (limit - total_processed s))
            (counted (fetched session (page s) n))) cat) \<and>
   counter_total (license_counts s') = counter_total (license_counts s) +
     int (length (take (nat (limit - total_processed s))
            (counted (fetched session (page s) n))))"
proof (induction n arbitrary: s)
  case 0
  then show ?case by (simp add: counted_Nil)
next
  case (Suc n)
  from after_pages_Suc [OF Suc.prems] obtain s1 where
    b: "while_body session limit s = Continue s1"
    and a: "after_pages session limit n s1 = Some s'" by blast
  note w = while_body_counts [OF b]
  note IH = Suc.IH [OF a]
  let ?m = "nat (limit - total_processed s)"
  let ?A = "counted (page_journals session (page s))"
  let ?B = "counted (fetched session (page s + 1) n)"
  have m1: "nat (limit - total_processed s1) = ?m - min ?m (length ?A)"
    by (simp add: w(4) nat_budget)
  have split: "take ?m (counted (fetched session (page s) (Suc n)))
                 = take ?m ?A @ take (?m - length ?A) ?B"
    by (simp add: counted_append)
  from IH show ?case
    unfolding split m1 take_budget w(1)
    by (simp add: w)
qed

lemma process_journals_returns:
  assumes "process_journals session limit = Some (Inr s)"
  shows "\<exists>n s0. after_pages session limit n init_state = Some s0 \<and>
           license_counts s = license_counts s0 \<and>
           subject_counts s = subject_counts s0 \<and>
           language_counts s = language_counts s0 \<and>
           year_counts s = year_counts s0 \<and>
           total_processed s = total_processed s0 \<and>
           page s = page s0 \<and>
           effects s = effects s0 @ (if total_processed s0 < limit then [Get (page s0)] else []) \<and>
           (total_processed s0 < limit \<longrightarrow> ends_loop (session (page s0)))"
proof -
  from assms have "while_loop session limit init_state = Some (Inr s)"
    by (simp add: process_journals_def)
  from while_loop_returns [OF this] obtain n s0 where
    a: "after_pages session limit n init_state = Some s0"
    and x: "loop_exit session limit s0 = Some (Inr s)" by blast
  show ?thesis
  proof (cases "total_processed s0 < limit")
    case False
    with x have "s = s0" by (simp add: loop_exit_def)
    with a False show ?thesis by auto
  next
    case True
    with x obtain b where b: "while_body session limit s0 = Break b" and "s = b"
      by (auto simp: loop_exit_def split: outcome.splits)
    with while_body_Break [OF b] have "s = s0\<lparr>effects := effects s0 @ [Get (page s0)]\<rparr>"
      and "ends_loop (session (page s0))" by simp_all
    with a True show ?thesis by auto
  qed
qed

lemma after_pages_subjects:
  "after_pages session limit n s = Some s' \<Longrightarrow>
   \<forall>p. \<forall>j \<in> set (page_journals session p). valid_subjects_of j \<le> k \<Longrightarrow>
   \<forall>cat. table_total (subject_counts s) cat \<le> int k * count_of (license_counts s) cat \<Longrightarrow>
   table_total (subject_counts s') cat \<le> int k * count_of (license_counts s') cat"
proof (induction n arbitrary: s)
  case 0
  then show ?case by simp
next
  case (Suc n)
  from after_pages_Suc [OF Suc.prems(1)] obtain s1 where
    b: "while_body session limit s = Continue s1"
    and a: "after_pages session limit n s1 = Some s'" by blast
  from while_body_Continue [OF b] obtain s2 where
    f: "for_journals limit (page_journals session (page s))
           (s\<lparr>effects := effects s @ [Get (page s)]\<rparr>) = Inr s2"
    and s1: "s1 = s2\<lparr>page := page s2 + 1, effects := effects s2 @ [Sleep]\<rparr>"
    by blast
  from Suc.prems(2) have v: "\<forall>j \<in> set (page_journals session (page s)). valid_subjects_of j \<le> k"
    by blast
  have "\<forall>cat. table_total (subject_counts s1) cat \<le> int k * count_of (license_counts s1) cat"
  proof
    fix cat
    from for_journals_subjects [OF f v, of cat] Suc.prems(3) s1
    show "table_total (subject_counts s1) cat \<le> int k * count_of (license_counts s1) cat"
      by simp
  qed
  from Suc.IH [OF a Suc.prems(2) this] show ?case .
qed

lemma init_counts:
  "total_processed init_state = 0" "page init_state = 1" "effects init_state = []"
  "count_of (license_counts init_state) cat = 0"
  "table_total (year_counts init_state) cat = 0"
  "table_total (subject_counts init_state) cat = 0"
  "counter_total (license_counts init_state) = 0"
  by (simp_all add: init_state_def count_of_def table_total_def counter_total_def)

lemma rounds_pages: "Get q \<in> set (rounds p n) \<Longrightarrow> p \<le> q \<and> q < p + int n"
proof (induction n arbitrary: p)
  case 0
  then show ?case by simp
next
  case (Suc n)
  show ?case
  proof (cases "q = p")
    case True
    then show ?thesis by simp
  next
    case False
    with Suc.prems have "Get q \<in> set (rounds (p + 1) n)" by simp
    from Suc.IH [OF this] show ?thesis by simp
  qed
qed

lemma category_of_classify:
  "category_of j =
     (case classify j of None \<Rightarrow> None
      | Some t \<Rightarrow> if t = ''UNKNOWN CC legal tool'' then None else Some t)"
  by (simp add: category_of_def classify_def split: sum.splits)

lemma counted_qualifying:
  "counted js = filter (\<lambda>t. t \<noteq> ''UNKNOWN CC legal tool'') (qualifying js)"
  by (induction js)
    (simp_all add: counted_def qualifying_def category_of_classify split: option.splits)

section \<open>Claims about the classifier\<close>

text \<open>
  C8. When the licence list has a recognized descriptor, \<open>extract_license_type\<close>
  returns the type of the first one: the list is split at it, every descriptor before
  it being a dict that is not recognized, and whatever follows it is not looked at.
\<close>

theorem extract_license_type_first_match:
  assumes "\<forall>x \<in> set pre. is_dict x \<and> \<not> recognized x"
    and "py_get d ''type'' (JStr []) = Inr (JStr t)"
    and "t \<in> set CC_LICENSE_TYPES"
  shows "extract_license_type (JList (pre @ d # post)) = Inr t"
proof -
  have "extract_license_type (JList (pre @ d # post)) = scan_licenses (pre @ d # post)"
    by (rule extract_list) simp
  also have "\<dots> = scan_licenses (d # post)"
    using assms(1) by (rule scan_licenses_skip)
  also have "\<dots> = Inr t"
    using assms(2,3) by (rule scan_licenses_hit)
  finally show ?thesis .
qed

theorem extract_license_type_first_match_witness:
  "list_all (\<lambda>x. is_dict x \<and> \<not> recognized x)
     [JObj [(''type'', JStr ''Public Domain'')], JObj []] \<and>
   py_get (JObj [(''type'', JStr ''CC BY-SA'')]) ''type'' (JStr []) = Inr (JStr ''CC BY-SA'') \<and>
   ''CC BY-SA'' \<in> set CC_LICENSE_TYPES \<and>
   extract_license_type
     (JList ([JObj [(''type'', JStr ''Public Domain'')], JObj []] @
             JObj [(''type'', JStr ''CC BY-SA'')] # [JObj [(''type'', JStr ''CC BY'')], JInt 5]))
     = Inr ''CC BY-SA''"
proof -
  have h1: "\<forall>x \<in> set [JObj [(''type'', JStr ''Public Domain'')], JObj []].
              is_dict x \<and> \<not> recognized x"
    by (simp add: recognized_def CC_LICENSE_TYPES_def)
  have h2: "py_get (JObj [(''type'', JStr ''CC BY-SA'')]) ''type'' (JStr [])
              = Inr (JStr ''CC BY-SA'')"
    by simp
  have h3: "''CC BY-SA'' \<in> set CC_LICENSE_TYPES"
    by (simp add: CC_LICENSE_TYPES_def)
  from h1 have h1': "list_all (\<lambda>x. is_dict x \<and> \<not> recognized x)
     [JObj [(''type'', JStr ''Public Domain'')], JObj []]"
    by (simp only: list_all_iff)
  from extract_license_type_first_match [OF h1 h2 h3] h1' h2 h3 show ?thesis by blast
qed

text \<open>
  C9. \<open>extract_license_type\<close> returns the catch-all for every falsy input, among
  them \<^verbatim>\<open>None\<close> and the empty list; it returns a member of \<open>CC_LICENSE_TYPES\<close>,
  without raising, for every list of dicts; and for a list of dicts none of which is
  recognized it returns what it returns for \<^verbatim>\<open>None\<close>, so its result does not tell
  absent licence data from unrecognized licence data. The driver tests the licence data
  for emptiness itself (line 238) and leaves the journal.
\<close>

theorem extract_license_type_total:
  "(\<forall>v. \<not> truthy v \<longrightarrow> extract_license_type v = Inr ''UNKNOWN CC legal tool'') \<and>
   extract_license_type JNull = Inr ''UNKNOWN CC legal tool'' \<and>
   extract_license_type (JList []) = Inr ''UNKNOWN CC legal tool'' \<and>
   (\<forall>ds. (\<forall>d \<in> set ds. is_dict d) \<longrightarrow>
      (\<exists>t. extract_license_type (JList ds) = Inr t \<and> t \<in> set CC_LICENSE_TYPES)) \<and>
   (\<forall>ds. (\<forall>d \<in> set ds. is_dict d \<and> \<not> recognized d) \<longrightarrow>
      extract_license_type (JList ds) = extract_license_type JNull) \<and>
   (\<forall>journal bibjson license_info s.
      py_get journal ''bibjson'' (JObj []) = Inr bibjson \<and>
      py_get bibjson ''license'' JNull = Inr license_info \<and> \<not> truthy license_info \<longrightarrow>
      count_journal journal s = Inr s)"
proof (intro conjI allI impI)
  fix v assume "\<not> truthy v"
  then show "extract_license_type v = Inr ''UNKNOWN CC legal tool''" by (rule extract_falsy)
next
  show "extract_license_type JNull = Inr ''UNKNOWN CC legal tool''" by (simp add: extract_falsy)
next
  show "extract_license_type (JList []) = Inr ''UNKNOWN CC legal tool''" by (simp add: extract_falsy)
next
  fix ds assume a: "\<forall>d \<in> set ds. is_dict d"
  show "\<exists>t. extract_license_type (JList ds) = Inr t \<and> t \<in> set CC_LICENSE_TYPES"
  proof (cases "ds = []")
    case True
    then show ?thesis by (simp add: extract_falsy CC_LICENSE_TYPES_def)
  next
    case False
    with scan_licenses_in_types [OF a] show ?thesis by (simp add: extract_list)
  qed
next
  fix ds assume a: "\<forall>d \<in> set ds. is_dict d \<and> \<not> recognized d"
  show "extract_license_type (JList ds) = extract_license_type JNull"
  proof (cases "ds = []")
    case True
    then show ?thesis by (simp add: extract_falsy)
  next
    case False
    from scan_licenses_skip [OF a, of "[]"] have "scan_licenses ds = Inr ''UNKNOWN CC legal tool''"
      by simp
    with False show ?thesis by (simp add: extract_list extract_falsy)
  qed
next
  fix journal bibjson license_info s
  assume "py_get journal ''bibjson'' (JObj []) = Inr bibjson \<and>
      py_get bibjson ''license'' JNull = Inr license_info \<and> \<not> truthy license_info"
  then show "count_journal journal s = Inr s" by (simp add: count_journal_falsy)
qed

theorem extract_license_type_total_witness:
  "extract_license_type (JList [JObj [(''type'', JStr ''Public Domain'')]])
     = extract_license_type JNull \<and>
   extract_license_type JNull = Inr ''UNKNOWN CC legal tool'' \<and>
   count_journal (JObj [(''bibjson'', JObj [(''license'', JList [])])]) init_state
     = Inr init_state"
proof -
  have h: "\<forall>d \<in> set [JObj [(''type'', JStr ''Public Domain'')]]. is_dict d \<and> \<not> recognized d"
    by (simp add: recognized_def CC_LICENSE_TYPES_def)
  have g: "py_get (JObj [(''bibjson'', JObj [(''license'', JList [])])]) ''bibjson'' (JObj [])
             = Inr (JObj [(''license'', JList [])]) \<and>
           py_get (JObj [(''license'', JList [])]) ''license'' JNull = Inr (JList []) \<and>
           \<not> truthy (JList [])"
    by simp
  from extract_license_type_total h g show ?thesis by blast
qed

section \<open>Claims about one journal\<close>

text \<open>
  C7. A journal whose licence data is absent (\<^verbatim>\<open>None\<close>) or empty, or falsy in any
  other way, changes nothing: no table, not the total. The loop over the page goes on
  with the next journal from the same state.
\<close>

theorem skip_journal_without_license:
  assumes "py_get journal ''bibjson'' (JObj []) = Inr bibjson"
    and "py_get bibjson ''license'' JNull = Inr license_info"
    and "\<not> truthy license_info"
  shows "count_journal journal s = Inr s \<and>
         for_journals limit (journal # rest) s = for_journals limit rest s"
proof -
  have c: "count_journal journal s = Inr s"
    using assms by (rule count_journal_falsy)
  show ?thesis
  proof (cases "limit \<le> total_processed s")
    case True
    then show ?thesis using c by (simp add: for_journals_at_limit)
  next
    case False
    then show ?thesis using c by simp
  qed
qed

theorem skip_journal_without_license_witness:
  "py_get (JObj [(''bibjson'', JObj [(''title'', JStr ''A'')])]) ''bibjson'' (JObj [])
     = Inr (JObj [(''title'', JStr ''A'')]) \<and>
   py_get (JObj [(''title'', JStr ''A'')]) ''license'' JNull = Inr JNull \<and>
   \<not> truthy JNull \<and>
   count_journal (JObj [(''bibjson'', JObj [(''title'', JStr ''A'')])]) init_state
     = Inr init_state \<and>
   for_journals 5 [JObj [(''bibjson'', JObj [(''title'', JStr ''A'')])]] init_state
     = Inr init_state"
proof -
  have h1: "py_get (JObj [(''bibjson'', JObj [(''title'', JStr ''A'')])]) ''bibjson'' (JObj [])
     = Inr (JObj [(''title'', JStr ''A'')])" by simp
  have h2: "py_get (JObj [(''title'', JStr ''A'')]) ''license'' JNull = Inr JNull" by simp
  have h3: "\<not> truthy JNull" by simp
  from skip_journal_without_license [OF h1 h2 h3, of init_state 5 "[]"] h1 h2 h3
  show ?thesis by simp
qed

text \<open>
  A journal whose only licence descriptor has a type outside \<open>CC_LICENSE_TYPES\<close>:
  the classifier returns the catch-all, and line 242 then leaves the journal, so nothing
  is counted under the catch-all.
\<close>

theorem unrecognized_license_counted_counterexample:
  "extract_license_type (JList [JObj [(''type'', JStr ''Public Domain'')]])
     = Inr ''UNKNOWN CC legal tool'' \<and>
   count_journal
     (JObj [(''bibjson'', JObj [(''license'', JList [JObj [(''type'', JStr ''Public Domain'')]]),
                                (''oa_start'', JInt 2001),
                                (''language'', JList [JStr ''EN''])])])
     init_state = Inr init_state \<and>
   count_of (license_counts init_state) ''UNKNOWN CC legal tool'' = 0 \<and>
   table_total (year_counts init_state) ''UNKNOWN CC legal tool'' = 0 \<and>
   table_total (language_counts init_state) ''UNKNOWN CC legal tool'' = 0 \<and>
   total_processed init_state = 0"
  by (simp add: extract_license_type_def CC_LICENSE_TYPES_def count_journal_def
      init_state_def count_of_def table_total_def)

text \<open>
  C1, as the code has it. For a journal whose licence list is not empty and holds only
  dicts that are not recognized, \<open>extract_license_type\<close> returns the catch-all
  category, and the driver skips the journal (line 242): no table changes and the total
  is not incremented.
\<close>

theorem unrecognized_license_skipped:
  assumes "py_get journal ''bibjson'' (JObj []) = Inr bibjson"
    and "py_get bibjson ''license'' JNull = Inr (JList ds)"
    and "ds \<noteq> []"
    and "\<forall>d \<in> set ds. is_dict d \<and> \<not> recognized d"
  shows "extract_license_type (JList ds) = Inr ''UNKNOWN CC legal tool'' \<and>
         count_journal journal s = Inr s"
proof -
  from scan_licenses_skip [OF assms(4), of "[]"]
  have "scan_licenses ds = Inr ''UNKNOWN CC legal tool''" by simp
  with assms(3) have e: "extract_license_type (JList ds) = Inr ''UNKNOWN CC legal tool''"
    by (simp add: extract_list)
  with assms(1,2) show ?thesis by (simp add: count_journal_unknown)
qed

theorem unrecognized_license_skipped_witness:
  "extract_license_type (JList [JObj [(''type'', JStr ''Public Domain'')], JObj []])
     = Inr ''UNKNOWN CC legal tool'' \<and>
   count_journal
     (JObj [(''bibjson'',
             JObj [(''license'', JList [JObj [(''type'', JStr ''Public Domain'')], JObj []]),
                   (''oa_start'', JInt 2001)])])
     init_state = Inr init_state"
proof -
  have h1: "py_get (JObj [(''bibjson'',
             JObj [(''license'', JList [JObj [(''type'', JStr ''Public Domain'')], JObj []]),
                   (''oa_start'', JInt 2001)])]) ''bibjson'' (JObj [])
     = Inr (JObj [(''license'', JList [JObj [(''type'', JStr ''Public Domain'')], JObj []]),
                   (''oa_start'', JInt 2001)])" by simp
  have h2: "py_get (JObj [(''license'', JList [JObj [(''type'', JStr ''Public Domain'')], JObj []]),
                   (''oa_start'', JInt 2001)]) ''license'' JNull
     = Inr (JList [JObj [(''type'', JStr ''Public Domain'')], JObj []])" by simp
  have h3: "[JObj [(''type'', JStr ''Public Domain'')], JObj []] \<noteq> []" by simp
  have h4: "\<forall>d \<in> set [JObj [(''type'', JStr ''Public Domain'')], JObj []].
              is_dict d \<and> \<not> recognized d"
    by (simp add: recognized_def CC_LICENSE_TYPES_def)
  from unrecognized_license_skipped [OF h1 h2 h3 h4] show ?thesis .
qed



section \<open>Claims about a run\<close>

text \<open>
  C5. With a limit \<open>N \<ge> 0\<close>, the total of processed journals never exceeds \<open>N\<close>:
  not in any state the loop passes through, and not in the state \<open>process_journals\<close>
  returns. The returned total is the sum of the licence counts, and it is the number of
  journals the driver counts (\<open>counted\<close>) in the pages that were processed (pages 1 to
  \<open>page s - 1\<close>), cut off at \<open>N\<close>.
\<close>

theorem processed_at_most_limit:
  assumes "0 \<le> limit"
  shows "(\<forall>n s. after_pages session limit n init_state = Some s \<longrightarrow>
            total_processed s \<le> limit) \<and>
         (\<forall>s. process_journals session limit = Some (Inr s) \<longrightarrow>
            total_processed s \<le> limit \<and>
            counter_total (license_counts s) = total_processed s \<and>
            total_processed s =
              int (length (take (nat limit) (counted (fetched session 1 (nat (page s - 1)))))))"
proof -
  have a: "total_processed s \<le> limit \<and>
           counter_total (license_counts s) = total_processed s \<and>
           total_processed s =
              int (length (take (nat limit) (counted (fetched session 1 (nat (page s - 1))))))"
    if "after_pages session limit n init_state = Some s" for n s
  proof -
    from after_pages_effects [OF that] have p: "nat (page s - 1) = n"
      by (simp add: init_counts)
    from after_pages_counts [OF that] assms show ?thesis
      by (simp add: init_counts p)
  qed
  show ?thesis
  proof (intro conjI allI impI)
    fix n s assume "after_pages session limit n init_state = Some s"
    from a [OF this] show "total_processed s \<le> limit" by simp
  next
    fix s assume r: "process_journals session limit = Some (Inr s)"
    from process_journals_returns [OF r] obtain n s0 where
      "after_pages session limit n init_state = Some s0"
      "license_counts s = license_counts s0" "total_processed s = total_processed s0"
      "page s = page s0" by blast
    with a [of n s0]
    show "total_processed s \<le> limit"
      and "counter_total (license_counts s) = total_processed s"
      and "total_processed s =
              int (length (take (nat limit) (counted (fetched session 1 (nat (page s - 1))))))"
      by simp_all
  qed
qed

theorem processed_at_most_limit_witness:
  "(0::int) \<le> 3 \<and>
   process_journals three_page_source 3
     = Some (Inr \<lparr>license_counts = [(''CC BY'', 2), (''CC0'', 1)],
                  subject_counts = [], language_counts = [],
                  year_counts = [(''CC BY'', [(''Unknown'', 2)]), (''CC0'', [(''Unknown'', 1)])],
                  total_processed = 3, page = 3,
                  effects = [Get 1, Sleep, Get 2, Sleep]\<rparr>) \<and>
   total_processed \<lparr>license_counts = [(''CC BY'', 2), (''CC0'', 1)],
                  subject_counts = [], language_counts = [],
                  year_counts = [(''CC BY'', [(''Unknown'', 2)]), (''CC0'', [(''Unknown'', 1)])],
                  total_processed = 3, page = 3,
                  effects = [Get 1, Sleep, Get 2, Sleep]\<rparr> \<le> 3"
proof -
  have h: "(0::int) \<le> 3" by simp
  have r: "process_journals three_page_source 3
     = Some (Inr \<lparr>license_counts = [(''CC BY'', 2), (''CC0'', 1)],
                  subject_counts = [], language_counts = [],
                  year_counts = [(''CC BY'', [(''Unknown'', 2)]), (''CC0'', [(''Unknown'', 1)])],
                  total_processed = 3, page = 3,
                  effects = [Get 1, Sleep, Get 2, Sleep]\<rparr>)"
    by code_simp
  from processed_at_most_limit [OF h, of three_page_source] r h show ?thesis by blast
qed

text \<open>
  One journal whose only licence descriptor has the type Public Domain: it is a
  qualifying journal, classified with the catch-all, yet the licence count of the
  catch-all is 0 and no year bucket is touched.
\<close>

theorem year_total_catch_all_counterexample:
  "process_journals (pages [page_of [licensed ''Public Domain'' [(''oa_start'', JInt 2001)]]]) 5
     = Some (Inr \<lparr>license_counts = [], subject_counts = [], language_counts = [],
                  year_counts = [], total_processed = 0, page = 2,
                  effects = [Get 1, Sleep, Get 2]\<rparr>) \<and>
   qualifying (fetched (pages [page_of [licensed ''Public Domain'' [(''oa_start'', JInt 2001)]]]) 1 1)
     = [''UNKNOWN CC legal tool''] \<and>
   int (count_list
          (take (nat 5)
             (qualifying
                (fetched (pages [page_of [licensed ''Public Domain'' [(''oa_start'', JInt 2001)]]])
                   1 1)))
          ''UNKNOWN CC legal tool'') = 1 \<and>
   count_of [] ''UNKNOWN CC legal tool'' = 0 \<and>
   table_total ([] :: string table) ''UNKNOWN CC legal tool'' = 0"
proof -
  have r: "process_journals
       (pages [page_of [licensed ''Public Domain'' [(''oa_start'', JInt 2001)]]]) 5
     = Some (Inr \<lparr>license_counts = [], subject_counts = [], language_counts = [],
                  year_counts = [], total_processed = 0, page = 2,
                  effects = [Get 1, Sleep, Get 2]\<rparr>)"
    by code_simp
  have q: "qualifying
       (fetched (pages [page_of [licensed ''Public Domain'' [(''oa_start'', JInt 2001)]]]) 1 1)
     = [''UNKNOWN CC legal tool'']"
    by code_simp
  show ?thesis
    unfolding q using r by (simp add: count_of_def table_total_def)
qed

text \<open>
  C4, as the code has it. For every category, the counts of the year table for it add up
  to its licence count, in every state the loop passes through and in the returned
  state; the licence count is the number of journals of that category among the
  qualifying journals that are not classified with the catch-all, in the processed
  pages and cut off at the limit; every such journal adds one to a year bucket and to
  the licence count of its category. A qualifying journal classified with the catch-all
  is skipped (line 242), so the catch-all has licence count and year total 0.
\<close>

theorem year_total_is_license_count:
  "(\<forall>n s. after_pages session limit n init_state = Some s \<longrightarrow>
      table_total (year_counts s) cat = count_of (license_counts s) cat) \<and>
   (\<forall>s. process_journals session limit = Some (Inr s) \<longrightarrow>
      table_total (year_counts s) cat = count_of (license_counts s) cat \<and>
      count_of (license_counts s) cat =
        int (count_list
               (take (nat limit)
                  (filter (\<lambda>t. t \<noteq> ''UNKNOWN CC legal tool'')
                     (qualifying (fetched session 1 (nat (page s - 1))))))
               cat)) \<and>
   (\<forall>j s s'. count_journal j s = Inr s' \<and> classify j = Some cat \<and>
              cat \<noteq> ''UNKNOWN CC legal tool'' \<longrightarrow>
      table_total (year_counts s') cat = table_total (year_counts s) cat + 1 \<and>
      count_of (license_counts s') cat = count_of (license_counts s) cat + 1) \<and>
   (\<forall>j s s'. count_journal j s = Inr s' \<and> classify j = Some ''UNKNOWN CC legal tool'' \<longrightarrow>
      s' = s)"
proof -
  have a: "table_total (year_counts s) cat = count_of (license_counts s) cat \<and>
           count_of (license_counts s) cat =
        int (count_list
               (take (nat limit)
                  (filter (\<lambda>t. t \<noteq> ''UNKNOWN CC legal tool'')
                     (qualifying (fetched session 1 (nat (page s - 1))))))
               cat)"
    if "after_pages session limit n init_state = Some s" for n s
  proof -
    from after_pages_effects [OF that] have p: "nat (page s - 1) = n"
      by (simp add: init_counts)
    from after_pages_counts [OF that, of cat] show ?thesis
      by (simp add: init_counts p counted_qualifying)
  qed
  show ?thesis
  proof (intro conjI allI impI)
    fix n s assume "after_pages session limit n init_state = Some s"
    from a [OF this] show "table_total (year_counts s) cat = count_of (license_counts s) cat"
      by simp
  next
    fix s assume r: "process_journals session limit = Some (Inr s)"
    from process_journals_returns [OF r] obtain n s0 where
      "after_pages session limit n init_state = Some s0"
      "license_counts s = license_counts s0" "year_counts s = year_counts s0"
      "page s = page s0" by blast
    with a [of n s0]
    show "table_total (year_counts s) cat = count_of (license_counts s) cat"
      and "count_of (license_counts s) cat =
        int (count_list
               (take (nat limit)
                  (filter (\<lambda>t. t \<noteq> ''UNKNOWN CC legal tool'')
                     (qualifying (fetched session 1 (nat (page s - 1))))))
               cat)"
      by simp_all
  next
    fix j s s'
    assume "count_journal j s = Inr s' \<and> classify j = Some cat \<and>
            cat \<noteq> ''UNKNOWN CC legal tool''"
    then have c: "count_journal j s = Inr s'" and q: "category_of j = Some cat"
      by (simp_all add: category_of_classify)
    from count_journal_counted(2,3) [OF c q]
    show "table_total (year_counts s') cat = table_total (year_counts s) cat + 1"
      and "count_of (license_counts s') cat = count_of (license_counts s) cat + 1"
      by (auto simp: table_total_inc count_of_inc)
  next
    fix j s s'
    assume "count_journal j s = Inr s' \<and> classify j = Some ''UNKNOWN CC legal tool''"
    then have c: "count_journal j s = Inr s'" and q: "category_of j = None"
      by (simp_all add: category_of_classify)
    from c q show "s' = s" by (rule count_journal_not_counted)
  qed
qed

theorem year_total_is_license_count_witness:
  "process_journals three_page_source 5
     = Some (Inr \<lparr>license_counts = [(''CC BY'', 3), (''CC0'', 1)],
                  subject_counts = [], language_counts = [],
                  year_counts = [(''CC BY'', [(''Unknown'', 2), (''2001'', 1)]),
                                 (''CC0'', [(''Unknown'', 1)])],
                  total_processed = 4, page = 4,
                  effects = [Get 1, Sleep, Get 2, Sleep, Get 3, Sleep, Get 4]\<rparr>) \<and>
   table_total [(''CC BY'', [(''Unknown'', 2), (''2001'', 1)]), (''CC0'', [(''Unknown'', 1)])]
     ''CC BY'' = 3 \<and>
   count_of [(''CC BY'', 3), (''CC0'', 1)] ''CC BY'' = 3 \<and>
   int (count_list
          (take (nat 5)
             (filter (\<lambda>t. t \<noteq> ''UNKNOWN CC legal tool'')
                (qualifying (fetched three_page_source 1 3))))
          ''CC BY'') = 3"
proof -
  have r: "process_journals three_page_source 5
     = Some (Inr \<lparr>license_counts = [(''CC BY'', 3), (''CC0'', 1)],
                  subject_counts = [], language_counts = [],
                  year_counts = [(''CC BY'', [(''Unknown'', 2), (''2001'', 1)]),
                                 (''CC0'', [(''Unknown'', 1)])],
                  total_processed = 4, page = 4,
                  effects = [Get 1, Sleep, Get 2, Sleep, Get 3, Sleep, Get 4]\<rparr>)"
    by code_simp
  have c: "count_of [(''CC BY'', 3), (''CC0'', 1)] ''CC BY'' = 3"
    by (simp add: count_of_def)
  from year_total_is_license_count [of three_page_source 5 "''CC BY''"] r
  have "table_total [(''CC BY'', [(''Unknown'', 2), (''2001'', 1)]), (''CC0'', [(''Unknown'', 1)])]
          ''CC BY'' = count_of [(''CC BY'', 3), (''CC0'', 1)] ''CC BY'' \<and>
        count_of [(''CC BY'', 3), (''CC0'', 1)] ''CC BY''
          = int (count_list
                   (take (nat 5)
                      (filter (\<lambda>t. t \<noteq> ''UNKNOWN CC legal tool'')
                         (qualifying (fetched three_page_source 1 (nat (4 - 1))))))
                   ''CC BY'')"
    by fastforce
  with r c show ?thesis by simp
qed

text \<open>
  One CC BY journal with two subjects, each with a code and a term: the subject table
  holds 2 for CC BY, the licence table 1.
\<close>

theorem subject_total_exceeds_license_count_counterexample:
  "process_journals
     (pages [page_of [licensed ''CC BY''
        [(''subject'', JList [subject_entry ''Q'' ''Science'', subject_entry ''R'' ''Medicine''])]]])
     5
   = Some (Inr \<lparr>license_counts = [(''CC BY'', 1)],
                 subject_counts = [(''CC BY'', [(''Q|Science'', 1), (''R|Medicine'', 1)])],
                 language_counts = [],
                 year_counts = [(''CC BY'', [(''Unknown'', 1)])],
                 total_processed = 1, page = 2, effects = [Get 1, Sleep, Get 2]\<rparr>) \<and>
   table_total [(''CC BY'', [(''Q|Science'', 1), (''R|Medicine'', 1)])] ''CC BY'' = 2 \<and>
   count_of [(''CC BY'', 1)] ''CC BY'' = 1 \<and>
   \<not> table_total [(''CC BY'', [(''Q|Science'', 1), (''R|Medicine'', 1)])] ''CC BY''
       \<le> count_of [(''CC BY'', 1)] ''CC BY''"
proof -
  have "process_journals
     (pages [page_of [licensed ''CC BY''
        [(''subject'', JList [subject_entry ''Q'' ''Science'', subject_entry ''R'' ''Medicine''])]]])
     5
   = Some (Inr \<lparr>license_counts = [(''CC BY'', 1)],
                 subject_counts = [(''CC BY'', [(''Q|Science'', 1), (''R|Medicine'', 1)])],
                 language_counts = [],
                 year_counts = [(''CC BY'', [(''Unknown'', 1)])],
                 total_processed = 1, page = 2, effects = [Get 1, Sleep, Get 2]\<rparr>)"
    by code_simp
  then show ?thesis
    by (simp add: table_total_def counter_total_def count_of_def)
qed

text \<open>
  C2, as the code has it. Line 254 counts every valid subject entry of a journal, so the
  subject total of a category is at most \<open>k\<close> times its licence count, where \<open>k\<close>
  bounds the number of valid subject entries of any one fetched journal; with \<open>k = 1\<close>
  (no journal has more than one subject entry with a code and a term) it is at most the
  licence count. This holds in every state the loop passes through and in the returned
  state.
\<close>

theorem subject_total_bounded:
  assumes "\<forall>p. \<forall>j \<in> set (page_journals session p). valid_subjects_of j \<le> k"
  shows "(\<forall>n s. after_pages session limit n init_state = Some s \<longrightarrow>
            table_total (subject_counts s) cat \<le> int k * count_of (license_counts s) cat) \<and>
         (\<forall>s. process_journals session limit = Some (Inr s) \<longrightarrow>
            table_total (subject_counts s) cat \<le> int k * count_of (license_counts s) cat)"
proof -
  have i: "\<forall>cat. table_total (subject_counts init_state) cat
             \<le> int k * count_of (license_counts init_state) cat"
    by (simp add: init_counts)
  have a: "table_total (subject_counts s) cat \<le> int k * count_of (license_counts s) cat"
    if "after_pages session limit n init_state = Some s" for n s
    using that assms i by (rule after_pages_subjects)
  show ?thesis
  proof (intro conjI allI impI)
    fix n s assume "after_pages session limit n init_state = Some s"
    then show "table_total (subject_counts s) cat \<le> int k * count_of (license_counts s) cat"
      by (rule a)
  next
    fix s assume r: "process_journals session limit = Some (Inr s)"
    from process_journals_returns [OF r] obtain n s0 where
      "after_pages session limit n init_state = Some s0"
      "license_counts s = license_counts s0" "subject_counts s = subject_counts s0"
      by blast
    with a [of n s0]
    show "table_total (subject_counts s) cat \<le> int k * count_of (license_counts s) cat"
      by simp
  qed
qed

theorem subject_total_bounded_witness:
  "process_journals
     (pages [page_of [licensed ''CC BY'' [(''subject'', JList [subject_entry ''Q'' ''Science''])],
                      licensed ''CC BY'' [(''subject'', JList [JObj [(''code'', JStr ''R'')]])]]])
     5
   = Some (Inr \<lparr>license_counts = [(''CC BY'', 2)],
                 subject_counts = [(''CC BY'', [(''Q|Science'', 1)])],
                 language_counts = [],
                 year_counts = [(''CC BY'', [(''Unknown'', 2)])],
                 total_processed = 2, page = 2, effects = [Get 1, Sleep, Get 2]\<rparr>) \<and>
   table_total [(''CC BY'', [(''Q|Science'', 1)])] ''CC BY''
     \<le> int 1 * count_of [(''CC BY'', 2)] ''CC BY''"
proof -
  let ?S = "pages [page_of [licensed ''CC BY'' [(''subject'', JList [subject_entry ''Q'' ''Science''])],
                      licensed ''CC BY'' [(''subject'', JList [JObj [(''code'', JStr ''R'')]])]]]"
  have r: "process_journals ?S 5
   = Some (Inr \<lparr>license_counts = [(''CC BY'', 2)],
                 subject_counts = [(''CC BY'', [(''Q|Science'', 1)])],
                 language_counts = [],
                 year_counts = [(''CC BY'', [(''Unknown'', 2)])],
                 total_processed = 2, page = 2, effects = [Get 1, Sleep, Get 2]\<rparr>)"
    by code_simp
  have h: "\<forall>p. \<forall>j \<in> set (page_journals ?S p). valid_subjects_of j \<le> 1"
    by (simp add: page_journals_def pages_def page_of_def valid_subjects_of_def subjects_of_def
        licensed_def subject_entry_def)
  from subject_total_bounded [OF h, of 5 "''CC BY''"] r show ?thesis by simp
qed

text \<open>
  A limit of 1 and a page whose first journal is counted: the loop ends by its condition,
  after the delay that follows page 1, the last page of the run.
\<close>

theorem delay_after_terminal_page_counterexample:
  "process_journals (pages [page_of [licensed ''CC BY'' []]]) 1
   = Some (Inr \<lparr>license_counts = [(''CC BY'', 1)], subject_counts = [],
                 language_counts = [],
                 year_counts = [(''CC BY'', [(''Unknown'', 1)])],
                 total_processed = 1, page = 2, effects = [Get 1, Sleep]\<rparr>) \<and>
   last [Get 1, Sleep] = Sleep"
proof -
  have "process_journals (pages [page_of [licensed ''CC BY'' []]]) 1
   = Some (Inr \<lparr>license_counts = [(''CC BY'', 1)], subject_counts = [],
                 language_counts = [],
                 year_counts = [(''CC BY'', [(''Unknown'', 1)])],
                 total_processed = 1, page = 2, effects = [Get 1, Sleep]\<rparr>)"
    by code_simp
  then show ?thesis by simp
qed

text \<open>
  C3, as the code has it. After \<open>n\<close> passes through the loop the effects are a request
  and a delay for each of the pages 1 to \<open>n\<close>, every one of which was answered with
  results that are not empty. The effects of a run that returns are those of the pages 1
  to \<open>page s - 1\<close>; when the loop ended by \<^verbatim>\<open>break\<close> (the total is below the
  limit), the request for page \<open>page s\<close> follows, which failed or had no results, and
  no delay comes after it. When the loop ended because the limit was reached, the delay
  after the last page has been performed.
\<close>

theorem delay_after_every_processed_page:
  "(\<forall>n s. after_pages session limit n init_state = Some s \<longrightarrow>
      effects s = rounds 1 n \<and> page s = 1 + int n \<and>
      (\<forall>i < n. nonempty_page (session (1 + int i)))) \<and>
   (\<forall>s. process_journals session limit = Some (Inr s) \<longrightarrow>
      effects s = rounds 1 (nat (page s - 1)) @
                  (if total_processed s < limit then [Get (page s)] else []) \<and>
      (\<forall>i < nat (page s - 1). nonempty_page (session (1 + int i))) \<and>
      (total_processed s < limit \<longrightarrow> ends_loop (session (page s))))"
proof -
  have a: "effects s = rounds 1 n \<and> page s = 1 + int n \<and>
           (\<forall>i < n. nonempty_page (session (1 + int i)))"
    if "after_pages session limit n init_state = Some s" for n s
    using after_pages_effects [OF that] by (simp add: init_counts)
  show ?thesis
  proof (intro conjI allI impI)
    fix n s i assume "after_pages session limit n init_state = Some s"
    from a [OF this] show "effects s = rounds 1 n" and "page s = 1 + int n" by simp_all
    assume "i < n"
    with a [OF \<open>after_pages session limit n init_state = Some s\<close>]
    show "nonempty_page (session (1 + int i))" by simp
  next
    fix s assume r: "process_journals session limit = Some (Inr s)"
    from process_journals_returns [OF r] obtain n s0 where
      n: "after_pages session limit n init_state = Some s0"
      and t: "total_processed s = total_processed s0"
      and p: "page s = page s0"
      and e: "effects s = effects s0 @
                (if total_processed s0 < limit then [Get (page s0)] else [])"
      and x: "total_processed s0 < limit \<longrightarrow> ends_loop (session (page s0))"
      by blast
    from a [OF n] t p e
    show "effects s = rounds 1 (nat (page s - 1)) @
                  (if total_processed s < limit then [Get (page s)] else [])"
      by simp
    {
      fix i assume "i < nat (page s - 1)"
      with a [OF n] p show "nonempty_page (session (1 + int i))" by simp
    }
    assume "total_processed s < limit"
    with x t p show "ends_loop (session (page s))" by simp
  qed
qed

theorem delay_after_every_processed_page_witness:
  "process_journals three_page_source 5
     = Some (Inr \<lparr>license_counts = [(''CC BY'', 3), (''CC0'', 1)],
                  subject_counts = [], language_counts = [],
                  year_counts = [(''CC BY'', [(''Unknown'', 2), (''2001'', 1)]),
                                 (''CC0'', [(''Unknown'', 1)])],
                  total_processed = 4, page = 4,
                  effects = [Get 1, Sleep, Get 2, Sleep, Get 3, Sleep, Get 4]\<rparr>) \<and>
   [Get 1, Sleep, Get 2, Sleep, Get 3, Sleep, Get 4] = rounds 1 3 @ [Get 4] \<and>
   ends_loop (three_page_source 4)"
proof -
  have r: "process_journals three_page_source 5
     = Some (Inr \<lparr>license_counts = [(''CC BY'', 3), (''CC0'', 1)],
                  subject_counts = [], language_counts = [],
                  year_counts = [(''CC BY'', [(''Unknown'', 2), (''2001'', 1)]),
                                 (''CC0'', [(''Unknown'', 1)])],
                  total_processed = 4, page = 4,
                  effects = [Get 1, Sleep, Get 2, Sleep, Get 3, Sleep, Get 4]\<rparr>)"
    by code_simp
  from delay_after_every_processed_page [of three_page_source 5] r show ?thesis by fastforce
qed

text \<open>
  C6. When the loop has passed through \<open>n\<close> pages, the limit is not reached and the
  request for the next page fails, \<open>process_journals\<close> returns, without an exception,
  the tables and the total as they were before the request; \<open>query_doaj\<close> writes that
  total into the provenance data; and the failed page was requested once.
\<close>

theorem failed_page_keeps_partial_results:
  assumes "after_pages session limit n init_state = Some s"
    and "total_processed s < limit"
    and "session (page s) = RequestException"
  shows "process_journals session limit = Some (Inr (s\<lparr>effects := effects s @ [Get (page s)]\<rparr>)) \<and>
         query_doaj session limit =
           Some (Inr \<lparr>total_articles_fetched = 0,
                      total_journals_fetched = total_processed s,
                      prov_total_processed = total_processed s,
                      prov_limit = limit\<rparr>) \<and>
         count_list (effects s @ [Get (page s)]) (Get (page s)) = 1"
proof -
  from assms(2,3) have "loop_exit session limit s
                          = Some (Inr (s\<lparr>effects := effects s @ [Get (page s)]\<rparr>))"
    by (simp add: loop_exit_def while_body_failed)
  then have "while_loop session limit s = Some (Inr (s\<lparr>effects := effects s @ [Get (page s)]\<rparr>))"
    by (rule while_loop_exit)
  with while_loop_after_pages [OF assms(1)] have
    r: "process_journals session limit = Some (Inr (s\<lparr>effects := effects s @ [Get (page s)]\<rparr>))"
    by (simp add: process_journals_def)
  from after_pages_effects [OF assms(1)] have
    "page s = 1 + int n" "effects s = rounds 1 n" by (simp_all add: init_counts)
  with rounds_pages [of "page s" 1 n] have "Get (page s) \<notin> set (effects s)" by auto
  then have "count_list (effects s) (Get (page s)) = 0" by (simp add: count_list_0_iff)
  with r show ?thesis by (simp add: query_doaj_def)
qed

theorem failed_page_keeps_partial_results_witness:
  "after_pages failing_source 10 1 init_state
     = Some \<lparr>license_counts = [(''CC BY'', 2)], subject_counts = [],
             language_counts = [], year_counts = [(''CC BY'', [(''Unknown'', 2)])],
             total_processed = 2, page = 2, effects = [Get 1, Sleep]\<rparr> \<and>
   failing_source 2 = RequestException \<and>
   process_journals failing_source 10
     = Some (Inr \<lparr>license_counts = [(''CC BY'', 2)], subject_counts = [],
             language_counts = [], year_counts = [(''CC BY'', [(''Unknown'', 2)])],
             total_processed = 2, page = 2, effects = [Get 1, Sleep, Get 2]\<rparr>) \<and>
   query_doaj failing_source 10
     = Some (Inr \<lparr>total_articles_fetched = 0, total_journals_fetched = 2,
                  prov_total_processed = 2, prov_limit = 10\<rparr>)"
proof -
  let ?s = "\<lparr>license_counts = [(''CC BY'', 2)], subject_counts = [],
             language_counts = [], year_counts = [(''CC BY'', [(''Unknown'', 2)])],
             total_processed = 2, page = 2, effects = [Get 1, Sleep]\<rparr>"
  have h1: "after_pages failing_source 10 1 init_state = Some ?s"
    by code_simp
  have h2: "total_processed ?s < 10" by simp
  have h3: "failing_source (page ?s) = RequestException"
    by (simp add: failing_source_def pages_def)
  from failed_page_keeps_partial_results [OF h1 h2 h3] h1 h3 show ?thesis by simp
qed

end
